theory Spec2Isabelle
  imports Main "HOL-Library.Char_ord" "HOL-Library.List_Lexorder" "HOL-Library.AList"
begin

section \<open>Python values used by the position encoder\<close>

text \<open>
  Python strings are modelled as \<^typ>\<open>string\<close> holding the UTF-8 bytes of the text.
  The order on \<^typ>\<open>string\<close> (lexicographic, characters compared by code) is the
  order Python's \<^verbatim>\<open><\<close> and \<^verbatim>\<open>list.sort\<close> use on \<^verbatim>\<open>str\<close>: bytewise comparison
  of UTF-8 agrees with comparison by code point.

  An argument that may be \<^verbatim>\<open>None\<close> is an \<^typ>\<open>int option\<close>. A parameter with a
  default value is an \<open>arg\<close>: \<open>Omitted\<close> when the call does not pass it.
\<close>

datatype 'a arg = Omitted | Passed 'a

definition digit_char :: "nat \<Rightarrow> char" where
  "digit_char d = char_of (48 + d)"

text \<open>\<^verbatim>\<open>str(n)\<close> for a non-negative integer: its decimal digits, without leading zeros.\<close>

function str_nat :: "nat \<Rightarrow> string" where
  "str_nat n = (if n < 10 then [digit_char n] else str_nat (n div 10) @ [digit_char (n mod 10)])"
  by pat_completeness auto
termination
  by (relation "measure (\<lambda>n. n)") auto

declare str_nat.simps [simp del]

definition str_int :: "int \<Rightarrow> string" where
  "str_int i = (if i < 0 then CHR ''-'' # str_nat (nat (- i)) else str_nat (nat i))"

text \<open>\<^verbatim>\<open>str(x)\<close> for \<^verbatim>\<open>x\<close> an \<^verbatim>\<open>int\<close> or \<^verbatim>\<open>None\<close>.\<close>

fun str :: "int option \<Rightarrow> string" where
  "str None = ''None''"
| "str (Some i) = str_int i"

text \<open>\<^verbatim>\<open>s.rjust(width, fillchar)\<close>: pads on the left; a longer string is returned as it is.\<close>

definition rjust :: "nat \<Rightarrow> char \<Rightarrow> string \<Rightarrow> string" where
  "rjust width fillchar s = replicate (width - length s) fillchar @ s"

section \<open>Position encoder\<close>

text \<open>
  \<^verbatim>\<open>
  def get_tag_position(line: int, position: int, sequence: int = 1) -> str:
      if sequence is None:
          sequence = 0
      return "".join([str(line).rjust(7, "0") +
                      str(position).rjust(5, "0") +
                      str(sequence).rjust(2, "0")])
  \<close>
\<close>

definition get_tag_position :: "int option \<Rightarrow> int option \<Rightarrow> int option arg \<Rightarrow> string" where
  "get_tag_position line position sequence_arg =
     (let sequence = (case sequence_arg of Omitted \<Rightarrow> Some 1 | Passed v \<Rightarrow> v);
          sequence = (if sequence = None then Some 0 else sequence)
      in concat [rjust 7 CHR ''0'' (str line) @
                 rjust 5 CHR ''0'' (str position) @
                 rjust 2 CHR ''0'' (str sequence)])"

section \<open>Documents\<close>

text \<open>
  The parsed document of the HTML library: a tree of strings and tags. A tag has a name,
  a dictionary of attributes, its children, and the line and column where the parser
  found it (\<^verbatim>\<open>None\<close> for a tag built by \<^verbatim>\<open>new_tag\<close>). The value of a multi-valued
  attribute such as \<^verbatim>\<open>class\<close> is a list of strings, any other value one string. The
  document object itself is a tag named \<^verbatim>\<open>[document]\<close>.
\<close>

datatype attr_value = Str string | Multi "string list"

datatype node =
    NavigableString string
  | Tag (name: string) (attrs: "(string \<times> attr_value) list") (contents: "node list")
      (sourceline: "int option") (sourcepos: "int option")

text \<open>A Python dictionary with string keys: the entries in insertion order.\<close>

type_synonym 'v dict = "(string \<times> 'v) list"

definition keys :: "'v dict \<Rightarrow> string list" where
  "keys d = map fst d"

text \<open>\<^verbatim>\<open>d | e\<close> and \<^verbatim>\<open>d.update(e)\<close>: an entry of \<open>e\<close> replaces the value of a key
  already present, in place, and is added at the end otherwise.\<close>

definition dict_update :: "'v dict \<Rightarrow> 'v dict \<Rightarrow> 'v dict" where
  "dict_update d e = fold (\<lambda>(k, v). AList.update k v) e d"

definition new_tag :: "string \<Rightarrow> node" where
  "new_tag nm = Tag nm [] [] None None"

definition BeautifulSoup_empty :: node where
  "BeautifulSoup_empty = Tag ''[document]'' [] [] None None"

fun set_contents :: "node \<Rightarrow> node list \<Rightarrow> node" where
  "set_contents (Tag n a cs l p) cs' = Tag n a cs' l p"
| "set_contents (NavigableString s) cs' = NavigableString s"

fun set_attrs :: "node \<Rightarrow> (string \<times> attr_value) list \<Rightarrow> node" where
  "set_attrs (Tag n a cs l p) a' = Tag n a' cs l p"
| "set_attrs (NavigableString s) a' = NavigableString s"

text \<open>\<^verbatim>\<open>tag.append(child)\<close> on tag values, for a child that is a brand-new tag: an object
  of its own that has no parent yet, as \<^verbatim>\<open>new_tag\<close> makes them. The library first
  takes a child that has a parent out of that parent; \<open>append_object\<close> below follows
  that on references to tag objects.\<close>

fun append_child :: "node \<Rightarrow> node \<Rightarrow> node" where
  "append_child (Tag n a cs l p) c = Tag n a (cs @ [c]) l p"
| "append_child (NavigableString s) c = NavigableString s"

text \<open>\<^verbatim>\<open>tag.descendants\<close>: every node below the tag, in document order.\<close>

fun descendants :: "node \<Rightarrow> node list" where
  "descendants (NavigableString s) = []"
| "descendants (Tag n a cs l p) = concat (map (\<lambda>c. c # descendants c) cs)"

fun is_tag_named :: "string \<Rightarrow> node \<Rightarrow> bool" where
  "is_tag_named nm (NavigableString s) = False"
| "is_tag_named nm (Tag n a cs l p) = (n = nm)"

definition find_all :: "node \<Rightarrow> string \<Rightarrow> node list" where
  "find_all root nm = filter (is_tag_named nm) (descendants root)"

text \<open>\<^verbatim>\<open>" ".join(ss)\<close>\<close>

fun join_space :: "string list \<Rightarrow> string" where
  "join_space [] = []"
| "join_space [s] = s"
| "join_space (s # t # ss) = s @ CHR '' '' # join_space (t # ss)"

text \<open>The library's match of an attribute value against a search string: a multi-valued
  attribute matches when one of its values does, or when its values joined by spaces do.\<close>

fun matches_value :: "attr_value \<Rightarrow> string \<Rightarrow> bool" where
  "matches_value (Str s) x = (s = x)"
| "matches_value (Multi ss) x = (x \<in> set ss \<or> join_space ss = x)"

fun tag_matches :: "string \<Rightarrow> string \<Rightarrow> string \<Rightarrow> node \<Rightarrow> bool" where
  "tag_matches nm key x (NavigableString s) = False"
| "tag_matches nm key x (Tag n a cs l p) =
     (n = nm \<and> (case map_of a key of None \<Rightarrow> False | Some v \<Rightarrow> matches_value v x))"

text \<open>\<^verbatim>\<open>root.find(nm)\<close>, also \<^verbatim>\<open>root.body\<close>: the first tag of that name, or \<^verbatim>\<open>None\<close>.\<close>

definition find_tag :: "node \<Rightarrow> string \<Rightarrow> node option" where
  "find_tag root nm = (case find_all root nm of [] \<Rightarrow> None | t # ts \<Rightarrow> Some t)"

text \<open>\<^verbatim>\<open>root.find(nm, {key: x})\<close>, also \<^verbatim>\<open>root.find(nm, class_=x)\<close> with \<open>key\<close> the
  attribute \<^verbatim>\<open>class\<close>.\<close>

definition find_tag_attr :: "node \<Rightarrow> string \<Rightarrow> string \<Rightarrow> string \<Rightarrow> node option" where
  "find_tag_attr root nm key x =
     (case filter (tag_matches nm key x) (descendants root) of [] \<Rightarrow> None | t # ts \<Rightarrow> Some t)"

text \<open>\<^verbatim>\<open>tag.get(key, None)\<close>\<close>

definition tag_get :: "node \<Rightarrow> string \<Rightarrow> attr_value option" where
  "tag_get t key = map_of (attrs t) key"

text \<open>The property \<^verbatim>\<open>tag.string\<close>: the text of a tag whose only child is a string, the
  \<^verbatim>\<open>.string\<close> of an only child that is a tag, \<^verbatim>\<open>None\<close> for any other number of children.\<close>

fun tag_string :: "node \<Rightarrow> string option" where
  "tag_string (NavigableString s) = Some s"
| "tag_string (Tag n a [] l p) = None"
| "tag_string (Tag n a [c] l p) = tag_string c"
| "tag_string (Tag n a (c # d # cs) l p) = None"

section \<open>Errors\<close>

text \<open>
  \<^verbatim>\<open>
  class PublishingError(Exception): pass
  class ConvertTagError(PublishingError): ...
  class HTMLParseError(Exception): ...
  \<close>
  The message of an \<^verbatim>\<open>HTMLParseError\<close> is kept as the value it is formatted from.
\<close>

datatype message =
    Marker_text "string option"
  | Title_tag_not_found "node option"
  | Body_tag_not_found

datatype exn =
    HTMLParseError message
  | ConvertTagError string int
  | TypeError
  | KeyError string

datatype exc_class =
    Exception_class
  | PublishingError_class
  | ConvertTagError_class
  | HTMLParseError_class
  | TypeError_class
  | LookupError_class
  | KeyError_class

text \<open>The base named in each class statement (of the source, or of Python's built-in
  exceptions).\<close>

fun base :: "exc_class \<Rightarrow> exc_class option" where
  "base Exception_class = None"
| "base PublishingError_class = Some Exception_class"
| "base ConvertTagError_class = Some PublishingError_class"
| "base HTMLParseError_class = Some Exception_class"
| "base TypeError_class = Some Exception_class"
| "base LookupError_class = Some Exception_class"
| "base KeyError_class = Some LookupError_class"

fun depth :: "exc_class \<Rightarrow> nat" where
  "depth Exception_class = 0"
| "depth PublishingError_class = 1"
| "depth ConvertTagError_class = 2"
| "depth HTMLParseError_class = 1"
| "depth TypeError_class = 1"
| "depth LookupError_class = 1"
| "depth KeyError_class = 2"

text \<open>\<^verbatim>\<open>issubclass(c, d)\<close>: \<open>d\<close> is \<open>c\<close> or is reached from \<open>c\<close> along the bases.\<close>

function issubclass :: "exc_class \<Rightarrow> exc_class \<Rightarrow> bool" where
  "issubclass c d = (c = d \<or> (case base c of None \<Rightarrow> False | Some b \<Rightarrow> issubclass b d))"
  by pat_completeness auto
termination
  by (relation "measure (\<lambda>(c, d). depth c)") (auto elim: base.elims)

declare issubclass.simps [simp del]

fun class_of :: "exn \<Rightarrow> exc_class" where
  "class_of (HTMLParseError m) = HTMLParseError_class"
| "class_of (ConvertTagError nm line) = ConvertTagError_class"
| "class_of TypeError = TypeError_class"
| "class_of (KeyError k) = KeyError_class"

text \<open>Whether a handler \<^verbatim>\<open>except handler:\<close> catches the exception.\<close>

definition catches :: "exc_class \<Rightarrow> exn \<Rightarrow> bool" where
  "catches handler e = issubclass (class_of e) handler"

section \<open>Tag converters\<close>

text \<open>
  A converter is called on the body and returns a dictionary from position keys to new
  tags, or \<^verbatim>\<open>None\<close>, or raises.
\<close>

type_synonym converter = "node \<Rightarrow> exn + node dict option"

text \<open>\<^verbatim>\<open>tag.string = v\<close>: the contents become the one string \<open>v\<close>; the library raises
  \<^verbatim>\<open>TypeError\<close> when \<open>v\<close> is \<^verbatim>\<open>None\<close>.\<close>

fun set_string :: "node \<Rightarrow> string option \<Rightarrow> exn + node" where
  "set_string t None = Inl TypeError"
| "set_string t (Some s) = Inr (set_contents t [NavigableString s])"

text \<open>
  \<^verbatim>\<open>
  def convert_blockquote(source_tag: Tag) -> dict[str, Tag]:
      new_tags = {}
      for tag in source_tag.find_all("blockquote"):
          new_tag = BeautifulSoup(features='html.parser').new_tag("blockquote")
          new_tag.string = tag.string
          new_tag.attrs = {key: value for key, value in new_tag.attrs.items()
                           if key not in ["class"]}
          new_tags.update({get_tag_position(tag.sourceline, tag.sourcepos):
                           new_tag})
      return new_tags if len(new_tags) > 0 else None
  \<close>
\<close>

fun convert_blockquote_loop :: "node list \<Rightarrow> node dict \<Rightarrow> exn + node dict" where
  "convert_blockquote_loop [] new_tags = Inr new_tags"
| "convert_blockquote_loop (tag # tags) new_tags =
     (case set_string (new_tag ''blockquote'') (tag_string tag) of
        Inl e \<Rightarrow> Inl e
      | Inr new_tag1 \<Rightarrow>
          (let new_tag2 = set_attrs new_tag1
                 (filter (\<lambda>(key, value). key \<notin> set [''class'']) (attrs new_tag1))
           in convert_blockquote_loop tags
                (dict_update new_tags
                   [(get_tag_position (sourceline tag) (sourcepos tag) Omitted, new_tag2)])))"

definition convert_blockquote :: converter where
  "convert_blockquote source_tag =
     (case convert_blockquote_loop (find_all source_tag ''blockquote'') [] of
        Inl e \<Rightarrow> Inl e
      | Inr new_tags \<Rightarrow> Inr (if length new_tags > 0 then Some new_tags else None))"

section \<open>Article builder\<close>

record TelegraphPage =
  title :: "attr_value option"
  html :: node
  url :: "string option"
  path :: "string option"

text \<open>
  \<^verbatim>\<open>
  def _convert(cls, body, tag_converters):
      tags_with_position = {}
      new_body = BeautifulSoup("", "html.parser")
      for parser_func in tag_converters:
          if converted_tags := parser_func(body):
              tags_with_position = tags_with_position | converted_tags
      tags_positions = list(tags_with_position)
      tags_positions.sort()
      for position in tags_positions:
          new_body.append(tags_with_position[position])
      return new_body
  \<close>
  A result of a converter is true when it is a dictionary with at least one entry.
\<close>

fun collect_tags ::
  "node \<Rightarrow> (node \<Rightarrow> exn + 'o dict option) list \<Rightarrow> 'o dict \<Rightarrow> exn + 'o dict" where
  "collect_tags body [] tags_with_position = Inr tags_with_position"
| "collect_tags body (parser_func # rest) tags_with_position =
     (case parser_func body of
        Inl e \<Rightarrow> Inl e
      | Inr None \<Rightarrow> collect_tags body rest tags_with_position
      | Inr (Some converted_tags) \<Rightarrow>
          collect_tags body rest
            (if converted_tags \<noteq> [] then dict_update tags_with_position converted_tags
             else tags_with_position))"

fun append_tags :: "node dict \<Rightarrow> string list \<Rightarrow> node \<Rightarrow> exn + node" where
  "append_tags tags_with_position [] new_body = Inr new_body"
| "append_tags tags_with_position (position # rest) new_body =
     (case map_of tags_with_position position of
        None \<Rightarrow> Inl (KeyError position)
      | Some t \<Rightarrow> append_tags tags_with_position rest (append_child new_body t))"

definition convert :: "node \<Rightarrow> converter list \<Rightarrow> exn + node" where
  "convert body tag_converters =
     (case collect_tags body tag_converters [] of
        Inl e \<Rightarrow> Inl e
      | Inr tags_with_position \<Rightarrow>
          (let tags_positions = sort (keys tags_with_position)
           in append_tags tags_with_position tags_positions BeautifulSoup_empty))"

text \<open>
  \<open>convert\<close> is \<^verbatim>\<open>_convert\<close> on tag values. It is exact for converters that issue a
  brand-new tag for each entry, as \<open>convert_blockquote\<close> does. A converter in general
  returns references to tag objects: it may return one object under several keys, or
  an object that has a parent already. \<open>convert_objects\<close> is \<^verbatim>\<open>_convert\<close> on
  references, of any type \<open>'o\<close>, equal references being the same object. Its result is
  the list of the children of the new document, as references.

  \<^verbatim>\<open>new_body.append(child)\<close> first takes the child out of the parent it has. When
  that parent is the new document, the child leaves the place it had among the
  children; any other parent is not among what the list holds. The child then becomes
  the last of the children. (The child is a tag and not a document object; the new
  document, a local of \<^verbatim>\<open>_convert\<close>, is not a child itself.)
\<close>

definition append_object :: "'o list \<Rightarrow> 'o \<Rightarrow> 'o list" where
  "append_object children child = remove1 child children @ [child]"

fun append_objects :: "'o dict \<Rightarrow> string list \<Rightarrow> 'o list \<Rightarrow> exn + 'o list" where
  "append_objects tags_with_position [] children = Inr children"
| "append_objects tags_with_position (position # rest) children =
     (case map_of tags_with_position position of
        None \<Rightarrow> Inl (KeyError position)
      | Some t \<Rightarrow> append_objects tags_with_position rest (append_object children t))"

definition convert_objects ::
  "node \<Rightarrow> (node \<Rightarrow> exn + 'o dict option) list \<Rightarrow> exn + 'o list" where
  "convert_objects body tag_converters =
     (case collect_tags body tag_converters [] of
        Inl e \<Rightarrow> Inl e
      | Inr tags_with_position \<Rightarrow>
          (let tags_positions = sort (keys tags_with_position)
           in append_objects tags_with_position tags_positions []))"

text \<open>
  \<^verbatim>\<open>
  def build(cls, source_html, tag_converters):
      soup = BeautifulSoup(source_html, 'html.parser')
      if error_message := soup.find("div", class_='service_msg_error'):
          raise HTMLParseError(error_message.string)
      if restricted_tag := soup.find("div", class_="article_layer_placeholder__text"):
          raise HTMLParseError(restricted_tag.string)
      try:
          title = soup.find("meta", {"property": "og:title"}).get("content", None)
      except Exception as exc:
          raise HTMLParseError(f"... {soup.find("meta")}")
      body = soup.body
      if body is None:
          raise HTMLParseError(f"...")
      body = cls._convert(body, tag_converters)
      return TelegraphPage(title, body)
  \<close>
  The parser of the HTML library is a parameter. A tag that was found is true whatever
  it holds; \<^verbatim>\<open>.get\<close> on the \<^verbatim>\<open>None\<close> of a failed search is the exception the
  \<^verbatim>\<open>try\<close> block turns into \<^verbatim>\<open>HTMLParseError\<close>.
\<close>

definition build :: "(string \<Rightarrow> node) \<Rightarrow> string \<Rightarrow> converter list \<Rightarrow> exn + TelegraphPage" where
  "build html_parser source_html tag_converters =
     (let soup = html_parser source_html in
      case find_tag_attr soup ''div'' ''class'' ''service_msg_error'' of
        Some error_message \<Rightarrow> Inl (HTMLParseError (Marker_text (tag_string error_message)))
      | None \<Rightarrow>
     (case find_tag_attr soup ''div'' ''class'' ''article_layer_placeholder__text'' of
        Some restricted_tag \<Rightarrow> Inl (HTMLParseError (Marker_text (tag_string restricted_tag)))
      | None \<Rightarrow>
     (case find_tag_attr soup ''meta'' ''property'' ''og:title'' of
        None \<Rightarrow> Inl (HTMLParseError (Title_tag_not_found (find_tag soup ''meta'')))
      | Some title_tag \<Rightarrow>
     (let title = tag_get title_tag ''content'' in
      case find_tag soup ''body'' of
        None \<Rightarrow> Inl (HTMLParseError Body_tag_not_found)
      | Some body \<Rightarrow>
     (case convert body tag_converters of
        Inl e \<Rightarrow> Inl e
      | Inr new_body \<Rightarrow> Inr \<lparr>title = title, html = new_body, url = None, path = None\<rparr>)))))"

text \<open>A parser whose result on the source is the given document.\<close>

definition parses_to :: "node \<Rightarrow> string \<Rightarrow> node" where
  "parses_to soup source_html = soup"

section \<open>Sample documents\<close>

text \<open>The document the parser builds from
  \<^verbatim>\<open><blockquote class="article_decoration_first article_decoration_last">text</blockquote>\<close>.\<close>

definition blockquote_source :: node where
  "blockquote_source = Tag ''[document]'' []
     [Tag ''blockquote''
        [(''class'', Multi [''article_decoration_first'', ''article_decoration_last''])]
        [NavigableString ''text''] (Some 1) (Some 0)] None None"

text \<open>The document of \<^verbatim>\<open><blockquote>text</blockquote>\<close>, as assembled by the builder.\<close>

definition blockquote_result :: node where
  "blockquote_result = Tag ''[document]'' []
     [Tag ''blockquote'' [] [NavigableString ''text''] None None] None None"

text \<open>The document of \<^verbatim>\<open><blockquote id="q1">text</blockquote>\<close>.\<close>

definition blockquote_with_id :: node where
  "blockquote_with_id = Tag ''[document]'' []
     [Tag ''blockquote'' [(''id'', Str ''q1'')] [NavigableString ''text''] (Some 1) (Some 0)]
     None None"

text \<open>The document of
  \<^verbatim>\<open><blockquote class="article_decoration_first">&laquo;<strong class="">X</strong>!</blockquote>\<close>
  (the first character is the left guillemet, two bytes in UTF-8).\<close>

definition blockquote_with_child_strong :: node where
  "blockquote_with_child_strong = Tag ''[document]'' []
     [Tag ''blockquote'' [(''class'', Multi [''article_decoration_first''])]
        [NavigableString [char_of (194::nat), char_of (171::nat)],
         Tag ''strong'' [(''class'', Multi [])] [NavigableString ''X''] (Some 1) (Some 46),
         NavigableString ''!'']
        (Some 1) (Some 0)] None None"

text \<open>The document of
  \<^verbatim>\<open><html><head><meta property="og:title"></head><body><p>t</p></body></html>\<close>:
  the title tag has no \<^verbatim>\<open>content\<close>.\<close>

definition page_title_without_content :: node where
  "page_title_without_content = Tag ''[document]'' []
     [Tag ''html'' []
        [Tag ''head'' [] [Tag ''meta'' [(''property'', Str ''og:title'')] [] (Some 1) (Some 12)]
           (Some 1) (Some 6),
         Tag ''body'' [] [Tag ''p'' [] [NavigableString ''t''] (Some 1) (Some 51)]
           (Some 1) (Some 45)]
        (Some 1) (Some 0)] None None"

text \<open>The document of \<^verbatim>\<open><html><body><p>t</p></body></html>\<close>: no title tag.\<close>

definition page_without_title :: node where
  "page_without_title = Tag ''[document]'' []
     [Tag ''html'' []
        [Tag ''body'' [] [Tag ''p'' [] [NavigableString ''t''] (Some 1) (Some 12)]
           (Some 1) (Some 6)]
        (Some 1) (Some 0)] None None"

text \<open>A body with two blockquotes: \<^verbatim>\<open>T1\<close> on line 2 at column 5 and \<^verbatim>\<open>T2\<close> on
  line 5 at column 1.\<close>

definition two_blockquotes :: node where
  "two_blockquotes = Tag ''body'' []
     [NavigableString [CHR 0x0A, CHR '' '', CHR '' '', CHR '' '', CHR '' '', CHR '' ''],
      Tag ''blockquote'' [(''class'', Multi [''article_decoration_first''])]
        [NavigableString ''first''] (Some 2) (Some 5),
      NavigableString [CHR 0x0A, CHR 0x0A, CHR 0x0A, CHR '' ''],
      Tag ''blockquote'' [(''class'', Multi [''article_decoration_last''])]
        [NavigableString ''second''] (Some 5) (Some 1)]
     (Some 1) (Some 0)"

text \<open>Converters on references, the tag objects numbered. The first two issue a tag
  object of their own each: object 2 for \<^verbatim>\<open>T2\<close> and object 1 for \<^verbatim>\<open>T1\<close>. The third
  returns object 1 twice: for \<^verbatim>\<open>T1\<close> and under the key of line 7, column 1.\<close>

definition converter_of_T2 :: "node \<Rightarrow> exn + nat dict option" where
  "converter_of_T2 body = Inr (Some [(get_tag_position (Some 5) (Some 1) Omitted, 2)])"

definition converter_of_T1 :: "node \<Rightarrow> exn + nat dict option" where
  "converter_of_T1 body = Inr (Some [(get_tag_position (Some 2) (Some 5) Omitted, 1)])"

definition converter_returning_twice :: "node \<Rightarrow> exn + nat dict option" where
  "converter_returning_twice body =
     Inr (Some [(get_tag_position (Some 2) (Some 5) Omitted, 1),
                (get_tag_position (Some 5) (Some 1) Omitted, 2),
                (get_tag_position (Some 7) (Some 1) Omitted, 1)])"

text \<open>The document of
  \<^verbatim>\<open><html><head><meta property="og:title"></head><body><blockquote>a<strong>X</strong>!</blockquote></body></html>\<close>:
  the title tag has no \<^verbatim>\<open>content\<close>, and the blockquote has three children.\<close>

definition page_title_without_content_child_strong :: node where
  "page_title_without_content_child_strong = Tag ''[document]'' []
     [Tag ''html'' []
        [Tag ''head'' [] [Tag ''meta'' [(''property'', Str ''og:title'')] [] (Some 1) (Some 12)]
           (Some 1) (Some 6),
         Tag ''body'' []
           [Tag ''blockquote'' []
              [NavigableString ''a'',
               Tag ''strong'' [] [NavigableString ''X''] (Some 1) (Some 64),
               NavigableString ''!'']
              (Some 1) (Some 51)]
           (Some 1) (Some 45)]
        (Some 1) (Some 0)] None None"

text \<open>The document of
  \<^verbatim>\<open><html><head><meta property="og:title" content="A"><meta property="og:title"></head><body><p>t</p></body></html>\<close>:
  the second title tag has no \<^verbatim>\<open>content\<close>, the first has.\<close>

definition page_two_title_tags :: node where
  "page_two_title_tags = Tag ''[document]'' []
     [Tag ''html'' []
        [Tag ''head'' []
           [Tag ''meta'' [(''property'', Str ''og:title''), (''content'', Str ''A'')] []
              (Some 1) (Some 12),
            Tag ''meta'' [(''property'', Str ''og:title'')] [] (Some 1) (Some 50)]
           (Some 1) (Some 6),
         Tag ''body'' [] [Tag ''p'' [] [NavigableString ''t''] (Some 1) (Some 89)]
           (Some 1) (Some 83)]
        (Some 1) (Some 0)] None None"

section \<open>Notions of the specification\<close>

text \<open>A fixed-width decimal field: the \<open>w\<close> lowest decimal digits of \<open>n\<close>, the most
  significant first, zeros included.\<close>

primrec fixed_width :: "nat \<Rightarrow> nat \<Rightarrow> string" where
  "fixed_width 0 n = []"
| "fixed_width (Suc w) n = fixed_width w (n div 10) @ [digit_char (n mod 10)]"

text \<open>The dictionaries the converters contribute, in the order of invocation: the results
  that are neither \<^verbatim>\<open>None\<close> nor empty.\<close>

fun contributions :: "node \<Rightarrow> (node \<Rightarrow> exn + 'o dict option) list \<Rightarrow> 'o dict list" where
  "contributions body [] = []"
| "contributions body (c # cs) =
     (case c body of
        Inr (Some d) \<Rightarrow> (if d \<noteq> [] then [d] else [])
      | _ \<Rightarrow> []) @ contributions body cs"

text \<open>The entry for a key of the converter invoked last among those that have the key.\<close>

definition later_invoked_entry :: "'o dict list \<Rightarrow> string \<Rightarrow> 'o option" where
  "later_invoked_entry ds k =
     (case filter (\<lambda>d. k \<in> set (keys d)) ds of
        [] \<Rightarrow> None
      | e # es \<Rightarrow> map_of (last (e # es)) k)"

text \<open>The dictionaries merged in the order of invocation, from a first dictionary.\<close>

definition merged :: "'o dict list \<Rightarrow> 'o dict \<Rightarrow> 'o dict" where
  "merged ds d0 = fold (\<lambda>d acc. dict_update acc d) ds d0"

text \<open>The structural preconditions of \<open>build\<close>, on the parsed document.\<close>

definition has_service_error_marker :: "node \<Rightarrow> bool" where
  "has_service_error_marker soup =
     (\<exists>t \<in> set (descendants soup). tag_matches ''div'' ''class'' ''service_msg_error'' t)"

definition has_restricted_placeholder :: "node \<Rightarrow> bool" where
  "has_restricted_placeholder soup =
     (\<exists>t \<in> set (descendants soup).
        tag_matches ''div'' ''class'' ''article_layer_placeholder__text'' t)"

definition og_title_tags :: "node \<Rightarrow> node list" where
  "og_title_tags soup = filter (tag_matches ''meta'' ''property'' ''og:title'') (descendants soup)"

definition og_title_absent :: "node \<Rightarrow> bool" where
  "og_title_absent soup = (og_title_tags soup = [])"

text \<open>A malformed title tag: the first \<^verbatim>\<open>og:title\<close> tag has no \<^verbatim>\<open>content\<close> attribute.\<close>

definition og_title_malformed :: "node \<Rightarrow> bool" where
  "og_title_malformed soup =
     (case og_title_tags soup of [] \<Rightarrow> False | t # ts \<Rightarrow> tag_get t ''content'' = None)"

text \<open>The document contains an \<^verbatim>\<open>og:title\<close> tag that has no \<^verbatim>\<open>content\<close> attribute.\<close>

definition has_og_title_without_content :: "node \<Rightarrow> bool" where
  "has_og_title_without_content soup =
     (\<exists>t \<in> set (og_title_tags soup). tag_get t ''content'' = None)"

definition body_absent :: "node \<Rightarrow> bool" where
  "body_absent soup = (\<not> (\<exists>t \<in> set (descendants soup). is_tag_named ''body'' t))"

section \<open>The position encoder\<close>

lemma rjust_seq_one: "rjust 2 CHR ''0'' (str (Some 1)) = ''01''"
  by code_simp

lemma rjust_seq_zero: "rjust 2 CHR ''0'' (str (Some 0)) = ''00''"
  by code_simp

text \<open>
  Claim C7. A call of \<open>get_tag_position\<close> that omits the sequence argument encodes
  sequence 1, a call that passes \<^verbatim>\<open>None\<close> encodes sequence 0, and the two keys differ for
  every line and position.
\<close>

theorem get_tag_position_omitted_vs_None:
  "get_tag_position line position Omitted = get_tag_position line position (Passed (Some 1))
   \<and> get_tag_position line position (Passed None)
       = get_tag_position line position (Passed (Some 0))
   \<and> get_tag_position line position Omitted \<noteq> get_tag_position line position (Passed None)"
  by (simp add: get_tag_position_def rjust_seq_one rjust_seq_zero del: str.simps)

lemma less_append_same_length:
  fixes xs ys us vs :: "'a::linorder list"
  assumes "length xs = length ys"
  shows "xs @ us < ys @ vs \<longleftrightarrow> xs < ys \<or> (xs = ys \<and> us < vs)"
  using assms
proof (induction xs ys rule: list_induct2)
  case Nil
  then show ?case by simp
next
  case (Cons x xs y ys)
  then show ?case by (auto simp: list_less_def)
qed

lemma digit_char_less:
  assumes "a < 10" "b < 10"
  shows "digit_char a < digit_char b \<longleftrightarrow> a < b"
  using assms by (simp add: digit_char_def less_char_def)

lemma digit_char_inj:
  assumes "a < 10" "b < 10"
  shows "digit_char a = digit_char b \<longleftrightarrow> a = b"
  using digit_char_less[OF assms] digit_char_less[OF assms(2) assms(1)]
  by (metis less_irrefl linorder_neqE_nat)

lemma length_fixed_width [simp]: "length (fixed_width w n) = w"
  by (induction w arbitrary: n) simp_all

lemma fixed_width_zero: "fixed_width w 0 = replicate w CHR ''0''"
proof (induction w)
  case 0
  show ?case by simp
next
  case (Suc w)
  have "digit_char 0 = CHR ''0''" by code_simp
  with Suc show ?case by (simp add: replicate_append_same)
qed

lemma fixed_width_eq_iff:
  "m < 10 ^ w \<Longrightarrow> n < 10 ^ w \<Longrightarrow> fixed_width w m = fixed_width w n \<longleftrightarrow> m = n"
proof (induction w arbitrary: m n)
  case 0
  then show ?case by simp
next
  case (Suc w)
  have m: "m div 10 < 10 ^ w" and n: "n div 10 < 10 ^ w"
    using Suc.prems by (simp_all add: less_mult_imp_div_less mult.commute)
  have "fixed_width (Suc w) m = fixed_width (Suc w) n
        \<longleftrightarrow> m div 10 = n div 10 \<and> m mod 10 = n mod 10"
    using Suc.IH[OF m n] by (simp add: digit_char_inj)
  also have "\<dots> \<longleftrightarrow> m = n"
    by (metis div_mult_mod_eq)
  finally show ?case .
qed

lemma fixed_width_less_iff:
  "m < 10 ^ w \<Longrightarrow> n < 10 ^ w \<Longrightarrow> fixed_width w m < fixed_width w n \<longleftrightarrow> m < n"
proof (induction w arbitrary: m n)
  case 0
  then show ?case by simp
next
  case (Suc w)
  have m: "m div 10 < 10 ^ w" and n: "n div 10 < 10 ^ w"
    using Suc.prems by (simp_all add: less_mult_imp_div_less mult.commute)
  have "fixed_width (Suc w) m < fixed_width (Suc w) n
        \<longleftrightarrow> m div 10 < n div 10 \<or> (m div 10 = n div 10 \<and> m mod 10 < n mod 10)"
    using Suc.IH[OF m n] fixed_width_eq_iff[OF m n]
    by (simp add: less_append_same_length digit_char_less)
  also have "\<dots> \<longleftrightarrow> m < n"
  proof -
    have "m = 10 * (m div 10) + m mod 10" "n = 10 * (n div 10) + n mod 10"
      "m mod 10 < 10" "n mod 10 < 10"
      by simp_all
    then show ?thesis by linarith
  qed
  finally show ?case .
qed

lemma length_str_nat: "n < 10 ^ w \<Longrightarrow> 0 < w \<Longrightarrow> length (str_nat n) \<le> w"
proof (induction n arbitrary: w rule: str_nat.induct)
  case (1 n)
  show ?case
  proof (cases "n < 10")
    case True
    then show ?thesis using "1.prems" by (simp add: str_nat.simps[of n])
  next
    case False
    obtain v where w: "w = Suc v" using "1.prems" by (cases w) auto
    have "v \<noteq> 0" using False "1.prems" w by (cases v) auto
    moreover have "n div 10 < 10 ^ v"
      using "1.prems" w by (simp add: less_mult_imp_div_less mult.commute)
    ultimately have "length (str_nat (n div 10)) \<le> v"
      using "1.IH"[OF False, of v] by simp
    then show ?thesis using False w by (simp add: str_nat.simps[of n])
  qed
qed

lemma rjust_str_nat:
  "n < 10 ^ w \<Longrightarrow> 0 < w \<Longrightarrow> rjust w CHR ''0'' (str_nat n) = fixed_width w n"
proof (induction w arbitrary: n)
  case 0
  then show ?case by simp
next
  case (Suc w)
  show ?case
  proof (cases "n < 10")
    case True
    then show ?thesis
      by (simp add: str_nat.simps[of n] rjust_def fixed_width_zero)
  next
    case False
    have w: "0 < w" using False Suc.prems by (cases w) auto
    have d: "n div 10 < 10 ^ w"
      using Suc.prems by (simp add: less_mult_imp_div_less mult.commute)
    have "rjust (Suc w) CHR ''0'' (str_nat n)
          = rjust w CHR ''0'' (str_nat (n div 10)) @ [digit_char (n mod 10)]"
      using False by (simp add: str_nat.simps[of n] rjust_def)
    then show ?thesis using Suc.IH[OF d w] by simp
  qed
qed

lemma rjust_str_Some:
  "n < 10 ^ w \<Longrightarrow> 0 < w \<Longrightarrow> rjust w CHR ''0'' (str (Some (int n))) = fixed_width w n"
  by (simp add: str_int_def rjust_str_nat)

lemma get_tag_position_fixed_width:
  assumes "line < 10 ^ 7" "position < 10 ^ 5" "sequence < 10 ^ 2"
  shows "get_tag_position (Some (int line)) (Some (int position)) (Passed (Some (int sequence)))
         = fixed_width 7 line @ fixed_width 5 position @ fixed_width 2 sequence"
  using assms by (simp add: get_tag_position_def rjust_str_Some del: str.simps fixed_width.simps)

text \<open>
  Claim C2. For line below \<open>10\<^sup>7\<close>, position below \<open>10\<^sup>5\<close> and sequence below
  \<open>10\<^sup>2\<close>, the key of \<open>get_tag_position\<close> is the concatenation of three zero-padded
  fields of 7, 5 and 2 digits, and the string order of two such keys is the
  lexicographic order of their triples (line, position, sequence).
\<close>

theorem get_tag_position_order:
  assumes "line1 < 10 ^ 7" "position1 < 10 ^ 5" "sequence1 < 10 ^ 2"
    and "line2 < 10 ^ 7" "position2 < 10 ^ 5" "sequence2 < 10 ^ 2"
  shows "get_tag_position (Some (int line1)) (Some (int position1)) (Passed (Some (int sequence1)))
           = fixed_width 7 line1 @ fixed_width 5 position1 @ fixed_width 2 sequence1
    \<and> (get_tag_position (Some (int line1)) (Some (int position1)) (Passed (Some (int sequence1)))
         < get_tag_position (Some (int line2)) (Some (int position2)) (Passed (Some (int sequence2)))
       \<longleftrightarrow> line1 < line2 \<or> (line1 = line2 \<and>
             (position1 < position2 \<or> (position1 = position2 \<and> sequence1 < sequence2))))"
  using assms
  by (simp add: get_tag_position_fixed_width less_append_same_length
      fixed_width_less_iff fixed_width_eq_iff del: fixed_width.simps)

theorem get_tag_position_order_witness:
  "(2::nat) < 10 ^ 7 \<and> (5::nat) < 10 ^ 5 \<and> (1::nat) < 10 ^ 2
   \<and> get_tag_position (Some 2) (Some 5) (Passed (Some 1))
       < get_tag_position (Some 5) (Some 1) (Passed (Some 1))"
proof -
  have a: "(2::nat) < 10 ^ 7" "(5::nat) < 10 ^ 5" "(1::nat) < 10 ^ 2"
    and b: "(5::nat) < 10 ^ 7" "(1::nat) < 10 ^ 5"
    by simp_all
  have "get_tag_position (Some (int 2)) (Some (int 5)) (Passed (Some (int 1)))
       < get_tag_position (Some (int 5)) (Some (int 1)) (Passed (Some (int 1)))"
    using get_tag_position_order [OF a b a(3), THEN conjunct2] by simp
  then show ?thesis by simp
qed

section \<open>The blockquote converter on the sample documents\<close>

lemma convert_blockquote_strips_class:
  "convert blockquote_source [convert_blockquote] = Inr blockquote_result"
  by code_simp

text \<open>
  Claim C3. The claim says the converter removes \<^verbatim>\<open>class\<close> and retains every other
  attribute of the source tag. The filter runs over the attributes of the new tag, which
  has none, so no attribute of the source tag is retained: the \<^verbatim>\<open>id\<close> of
  \<^verbatim>\<open><blockquote id="q1">text</blockquote>\<close> is lost and the output is
  \<^verbatim>\<open><blockquote>text</blockquote>\<close>.
\<close>

theorem convert_blockquote_drops_id:
  "convert blockquote_with_id [convert_blockquote] = Inr blockquote_result"
  by code_simp

text \<open>
  Claim C4. The claim says a blockquote with a nested \<^verbatim>\<open>strong\<close> tag is converted with
  its nested structure kept. The blockquote has three children, its \<^verbatim>\<open>.string\<close> is
  \<^verbatim>\<open>None\<close>, and assigning it to the new tag raises \<^verbatim>\<open>TypeError\<close>: no document is
  produced.
\<close>

theorem convert_blockquote_child_strong_raises:
  "convert blockquote_with_child_strong [convert_blockquote] = Inl TypeError"
  by code_simp

section \<open>The error classes\<close>

text \<open>
  Claim C6. The claim says both error kinds descend from \<^verbatim>\<open>PublishingError\<close>, so that a
  handler for it catches every error of \<open>build\<close>. \<^verbatim>\<open>HTMLParseError\<close> has the base
  \<^verbatim>\<open>Exception\<close>: on a document without title tag \<open>build\<close> raises an
  \<^verbatim>\<open>HTMLParseError\<close> that such a handler does not catch, while it would catch a
  \<^verbatim>\<open>ConvertTagError\<close>.
\<close>

theorem HTMLParseError_not_caught_as_PublishingError:
  "build (parses_to page_without_title) [] [convert_blockquote]
     = Inl (HTMLParseError (Title_tag_not_found None))
   \<and> \<not> catches PublishingError_class (HTMLParseError (Title_tag_not_found None))
   \<and> catches PublishingError_class (ConvertTagError ''blockquote'' 1)"
  by code_simp

section \<open>Merging and ordering the converted tags\<close>

lemma map_of_dict_update: "map_of (dict_update d e) = map_of d ++ map_of (rev e)"
proof (induction e arbitrary: d)
  case Nil
  show ?case by (simp add: dict_update_def)
next
  case (Cons x e)
  obtain k v where x: "x = (k, v)" by (cases x)
  have "dict_update d (x # e) = dict_update (AList.update k v d) e"
    by (simp add: dict_update_def x)
  moreover have "map_of (AList.update k v d) = (map_of d)(k \<mapsto> v)"
    by (rule AList.update_conv')
  ultimately have "map_of (dict_update d (x # e)) = (map_of d)(k \<mapsto> v) ++ map_of (rev e)"
    by (simp only: Cons.IH)
  also have "\<dots> = map_of d ++ map_of (rev (x # e))"
    by (simp add: x map_add_upd_left)
  finally show ?case .
qed

lemma map_of_rev_distinct: "distinct (map fst e) \<Longrightarrow> map_of (rev e) = map_of e"
  by (rule map_of_inject_set[THEN iffD2]) (simp_all add: rev_map[symmetric])

lemma keys_dict_update: "set (keys (dict_update d e)) = set (keys d) \<union> set (keys e)"
proof -
  have "dom (map_of (dict_update d e)) = dom (map_of d) \<union> dom (map_of (rev e))"
    by (simp add: map_of_dict_update Un_commute)
  then show ?thesis
    by (simp add: dom_map_of_conv_image_fst keys_def)
qed

lemma distinct_dict_update: "distinct (keys d) \<Longrightarrow> distinct (keys (dict_update d e))"
proof (induction e arbitrary: d)
  case Nil
  then show ?case by (simp add: dict_update_def)
next
  case (Cons x e)
  obtain k v where x: "x = (k, v)" by (cases x)
  have "dict_update d (x # e) = dict_update (AList.update k v d) e"
    by (simp add: dict_update_def x)
  moreover have "distinct (keys (AList.update k v d))"
    using Cons.prems by (simp add: keys_def AList.distinct_update)
  ultimately show ?case using Cons.IH by simp
qed

lemma collect_tags_merged:
  "\<forall>c \<in> set convs. \<exists>r. c body = Inr r \<Longrightarrow>
   collect_tags body convs d0 = Inr (merged (contributions body convs) d0)"
proof (induction convs arbitrary: d0)
  case Nil
  show ?case by (simp add: merged_def)
next
  case (Cons c convs)
  then obtain r where r: "c body = Inr r" by auto
  have rest: "\<forall>c \<in> set convs. \<exists>r. c body = Inr r" using Cons.prems by simp
  show ?case
    using Cons.IH[OF rest] r by (cases r) (simp_all add: merged_def)
qed

lemma later_invoked_entry_last:
  "later_invoked_entry ds k =
     (if filter (\<lambda>d. k \<in> set (keys d)) ds = [] then None
      else map_of (last (filter (\<lambda>d. k \<in> set (keys d)) ds)) k)"
  by (cases "filter (\<lambda>d. k \<in> set (keys d)) ds") (simp_all add: later_invoked_entry_def)

lemma later_invoked_entry_snoc:
  "later_invoked_entry (ds @ [d]) k =
     (if k \<in> set (keys d) then map_of d k else later_invoked_entry ds k)"
  by (simp add: later_invoked_entry_last)

lemma map_of_merged:
  "\<forall>d \<in> set ds. distinct (keys d) \<Longrightarrow>
   map_of (merged ds d0) k =
     (case later_invoked_entry ds k of None \<Rightarrow> map_of d0 k | Some t \<Rightarrow> Some t)"
proof (induction ds rule: rev_induct)
  case Nil
  show ?case by (simp add: merged_def later_invoked_entry_def)
next
  case (snoc d ds)
  have d: "distinct (map fst d)" using snoc.prems by (simp add: keys_def)
  have "map_of (merged (ds @ [d]) d0) k = (map_of (merged ds d0) ++ map_of d) k"
    by (simp add: merged_def map_of_dict_update map_of_rev_distinct[OF d])
  also have "\<dots> = (case later_invoked_entry (ds @ [d]) k of
                      None \<Rightarrow> map_of d0 k | Some t \<Rightarrow> Some t)"
  proof (cases "k \<in> set (keys d)")
    case True
    then obtain t where "map_of d k = Some t"
      by (metis keys_def list.set_map map_of_eq_None_iff not_Some_eq)
    then show ?thesis using True by (simp add: later_invoked_entry_snoc map_add_def)
  next
    case False
    then have "map_of d k = None" by (simp add: keys_def map_of_eq_None_iff)
    then show ?thesis using False snoc by (simp add: later_invoked_entry_snoc map_add_def)
  qed
  finally show ?case .
qed

lemma keys_merged:
  "set (keys (merged ds d0)) = set (keys d0) \<union> (\<Union>d \<in> set ds. set (keys d))"
  by (induction ds rule: rev_induct) (auto simp: merged_def keys_dict_update)

lemma distinct_merged: "distinct (keys d0) \<Longrightarrow> distinct (keys (merged ds d0))"
  by (induction ds rule: rev_induct) (simp_all add: merged_def distinct_dict_update)

lemma append_tags_map:
  "set ps \<subseteq> set (keys d) \<Longrightarrow>
   append_tags d ps (Tag n a cs l p) = Inr (Tag n a (cs @ map (\<lambda>k. the (map_of d k)) ps) l p)"
proof (induction ps arbitrary: cs)
  case Nil
  show ?case by simp
next
  case (Cons k ps)
  then obtain t where t: "map_of d k = Some t"
    by (metis keys_def list.set_intros(1) list.set_map map_of_eq_None_iff not_Some_eq subsetD)
  have "set ps \<subseteq> set (keys d)" using Cons.prems by simp
  from Cons.IH[OF this] t show ?case by simp
qed

lemma sorted_distinct_index_less:
  fixes ks :: "'a::linorder list"
  assumes "sorted ks" "k1 \<in> set ks" "k2 \<in> set ks" "k1 < k2"
  shows "\<exists>i j. i < j \<and> j < length ks \<and> ks ! i = k1 \<and> ks ! j = k2"
proof -
  obtain i where i: "i < length ks" "ks ! i = k1" using assms(2) by (auto simp: in_set_conv_nth)
  obtain j where j: "j < length ks" "ks ! j = k2" using assms(3) by (auto simp: in_set_conv_nth)
  have "i < j"
  proof (rule ccontr)
    assume "\<not> i < j"
    then have "j \<le> i" by simp
    then have "ks ! j \<le> ks ! i" using assms(1) i(1) by (rule_tac sorted_nth_mono)
    then show False using i j assms(4) by simp
  qed
  then show ?thesis using i j by blast
qed

lemma later_invoked_entry_keys:
  "later_invoked_entry ds k = Some t \<Longrightarrow> k \<in> (\<Union>d \<in> set ds. set (keys d))"
proof (induction ds rule: rev_induct)
  case Nil
  then show ?case by (simp add: later_invoked_entry_def)
next
  case (snoc d ds)
  then show ?case by (auto simp: later_invoked_entry_snoc split: if_splits)
qed

lemma position_keys_less:
  "get_tag_position (Some 2) (Some 5) Omitted < get_tag_position (Some 5) (Some 1) Omitted"
  by code_simp


lemma convert_merged:
  assumes "\<forall>c \<in> set convs. \<exists>r. c body = Inr r"
    and "\<forall>d \<in> set (contributions body convs). distinct (keys d)"
  shows "convert body convs =
     Inr (Tag ''[document]'' []
            (map (\<lambda>k. the (later_invoked_entry (contributions body convs) k))
               (sort (keys (merged (contributions body convs) [])))) None None)"
proof -
  let ?ds = "contributions body convs"
  let ?m = "merged ?ds []"
  have lookup: "map_of ?m k = later_invoked_entry ?ds k" for k
    using map_of_merged[OF assms(2), of "[]" k] by (simp split: option.splits)
  have "append_tags ?m (sort (keys ?m)) BeautifulSoup_empty =
        Inr (Tag ''[document]'' [] ([] @ map (\<lambda>k. the (map_of ?m k)) (sort (keys ?m))) None None)"
    unfolding BeautifulSoup_empty_def by (rule append_tags_map) simp
  then show ?thesis
    by (simp add: convert_def collect_tags_merged[OF assms(1)] lookup)
qed

lemma filter_neq_notin: "x \<notin> set cs \<Longrightarrow> filter (\<lambda>c. c \<noteq> x) cs = cs"
  by (induction cs) auto

lemma remove1_distinct_filter: "distinct cs \<Longrightarrow> remove1 x cs = filter (\<lambda>c. c \<noteq> x) cs"
  by (induction cs) (auto simp: filter_neq_notin)

lemma fold_append_object:
  "distinct cs \<Longrightarrow>
   fold (\<lambda>x cs. append_object cs x) xs cs = filter (\<lambda>c. c \<notin> set xs) cs @ remdups xs"
proof (induction xs arbitrary: cs)
  case Nil
  show ?case by simp
next
  case (Cons x xs)
  have d: "distinct (append_object cs x)"
    using Cons.prems by (simp add: append_object_def)
  have "fold (\<lambda>x cs. append_object cs x) (x # xs) cs
        = filter (\<lambda>c. c \<notin> set xs) (append_object cs x) @ remdups xs"
    using Cons.IH[OF d] by simp
  also have "filter (\<lambda>c. c \<notin> set xs) (append_object cs x)
        = filter (\<lambda>c. c \<notin> set (x # xs)) cs @ (if x \<in> set xs then [] else [x])"
    using Cons.prems
    by (simp add: append_object_def remove1_distinct_filter conj_commute)
  finally show ?case by simp
qed

lemma append_objects_fold:
  "set ps \<subseteq> set (keys d) \<Longrightarrow>
   append_objects d ps cs =
     Inr (fold (\<lambda>x cs. append_object cs x) (map (\<lambda>k. the (map_of d k)) ps) cs)"
proof (induction ps arbitrary: cs)
  case Nil
  show ?case by simp
next
  case (Cons k ps)
  have "k \<in> set (keys d)" using Cons.prems by simp
  then have "map_of d k \<noteq> None"
    by (simp add: map_of_eq_None_iff keys_def)
  then obtain t where t: "map_of d k = Some t" by blast
  have "set ps \<subseteq> set (keys d)" using Cons.prems by simp
  from Cons.IH[OF this] t show ?case by simp
qed

lemma convert_objects_merged:
  assumes "\<forall>c \<in> set convs. \<exists>r. c body = Inr r"
    and "\<forall>d \<in> set (contributions body convs). distinct (keys d)"
  shows "convert_objects body convs =
     Inr (remdups (map (\<lambda>k. the (later_invoked_entry (contributions body convs) k))
                     (sort (keys (merged (contributions body convs) [])))))"
proof -
  let ?ds = "contributions body convs"
  let ?m = "merged ?ds []"
  have lookup: "map_of ?m k = later_invoked_entry ?ds k" for k
    using map_of_merged[OF assms(2), of "[]" k] by (simp split: option.splits)
  have "append_objects ?m (sort (keys ?m)) [] =
        Inr (fold (\<lambda>x cs. append_object cs x) (map (\<lambda>k. the (map_of ?m k)) (sort (keys ?m))) [])"
    by (rule append_objects_fold) simp
  then show ?thesis
    by (simp add: convert_objects_def collect_tags_merged[OF assms(1)] lookup fold_append_object)
qed

lemma later_invoked_entry_Some:
  assumes "k \<in> (\<Union>d \<in> set ds. set (keys d))"
  shows "\<exists>t. later_invoked_entry ds k = Some t"
proof -
  let ?es = "filter (\<lambda>d. k \<in> set (keys d)) ds"
  have ne: "?es \<noteq> []" using assms by (auto simp: filter_empty_conv)
  then have "last ?es \<in> set ?es" by (rule last_in_set)
  then have "k \<in> set (keys (last ?es))" by simp
  then have "map_of (last ?es) k \<noteq> None"
    by (simp add: map_of_eq_None_iff keys_def)
  then show ?thesis using ne by (auto simp: later_invoked_entry_last)
qed

text \<open>
  Claim C1, as amended. The converters return; each contributed key has a tag object
  of its own (no object is returned under two keys). When they contribute the object
  \<open>t1\<close> for the key of line 2, column 5 and the object \<open>t2\<close> for the key of line 5,
  column 1, the children of the new document are one object for each contributed key,
  in strictly ascending order of the keys, so \<open>t1\<close> comes before \<open>t2\<close>, whatever the
  order of the converters and whichever converter produced which. For a key that
  several converters contribute, the object is the entry of the converter invoked last.
\<close>

theorem convert_order_preservation:
  assumes "\<forall>c \<in> set convs. \<exists>r. c body = Inr r"
    and "\<forall>d \<in> set (contributions body convs). distinct (keys d)"
    and "inj_on (later_invoked_entry (contributions body convs))
           (\<Union>d \<in> set (contributions body convs). set (keys d))"
    and "later_invoked_entry (contributions body convs)
           (get_tag_position (Some 2) (Some 5) Omitted) = Some t1"
    and "later_invoked_entry (contributions body convs)
           (get_tag_position (Some 5) (Some 1) Omitted) = Some t2"
  shows "\<exists>ks i j.
      convert_objects body convs =
        Inr (map (\<lambda>k. the (later_invoked_entry (contributions body convs) k)) ks)
      \<and> sorted ks \<and> distinct ks
      \<and> set ks = (\<Union>d \<in> set (contributions body convs). set (keys d))
      \<and> i < j \<and> j < length ks
      \<and> ks ! i = get_tag_position (Some 2) (Some 5) Omitted
      \<and> ks ! j = get_tag_position (Some 5) (Some 1) Omitted
      \<and> the (later_invoked_entry (contributions body convs) (ks ! i)) = t1
      \<and> the (later_invoked_entry (contributions body convs) (ks ! j)) = t2"
proof -
  let ?ds = "contributions body convs"
  let ?ks = "sort (keys (merged ?ds []))"
  let ?k1 = "get_tag_position (Some 2) (Some 5) Omitted"
  let ?k2 = "get_tag_position (Some 5) (Some 1) Omitted"
  let ?f = "\<lambda>k. the (later_invoked_entry ?ds k)"
  have set_ks: "set ?ks = (\<Union>d \<in> set ?ds. set (keys d))"
    using keys_merged[of ?ds "[]"] by (simp add: keys_def)
  have dist: "distinct ?ks"
    using distinct_merged[of "[]" ?ds] by (simp add: keys_def)
  have "inj_on ?f (set ?ks)"
  proof (rule inj_onI)
    fix k k' assume k: "k \<in> set ?ks" and k': "k' \<in> set ?ks" and eq: "?f k = ?f k'"
    obtain t where t: "later_invoked_entry ?ds k = Some t"
      using later_invoked_entry_Some[of k ?ds] k set_ks by auto
    obtain t' where t': "later_invoked_entry ?ds k' = Some t'"
      using later_invoked_entry_Some[of k' ?ds] k' set_ks by auto
    have "later_invoked_entry ?ds k = later_invoked_entry ?ds k'"
      using eq t t' by simp
    then show "k = k'"
      using assms(3) k k' set_ks by (auto dest: inj_onD)
  qed
  then have "distinct (map ?f ?ks)"
    using dist by (simp add: distinct_map)
  then have out: "convert_objects body convs = Inr (map ?f ?ks)"
    using convert_objects_merged[OF assms(1,2)] by simp
  have "?k1 \<in> set ?ks" "?k2 \<in> set ?ks"
    using later_invoked_entry_keys[OF assms(4)] later_invoked_entry_keys[OF assms(5)]
    unfolding set_ks by simp_all
  then obtain i j where ij: "i < j" "j < length ?ks" "?ks ! i = ?k1" "?ks ! j = ?k2"
    using sorted_distinct_index_less[of ?ks ?k1 ?k2] position_keys_less by auto
  show ?thesis
    apply (rule exI[of _ ?ks], rule exI[of _ i], rule exI[of _ j])
    using out set_ks dist ij assms(4,5) by simp
qed

lemma position_key_values:
  "get_tag_position (Some 2) (Some 5) Omitted = ''00000020000501''"
  "get_tag_position (Some 5) (Some 1) Omitted = ''00000050000101''"
  by code_simp+

lemma contributions_two_converters:
  "contributions two_blockquotes [converter_of_T2, converter_of_T1]
     = [[(''00000050000101'', 2)], [(''00000020000501'', 1)]]"
  by (simp add: converter_of_T2_def converter_of_T1_def position_key_values)

theorem convert_order_preservation_witness:
  "convert_objects two_blockquotes [converter_of_T2, converter_of_T1] = Inr [1, 2]
   \<and> later_invoked_entry (contributions two_blockquotes [converter_of_T2, converter_of_T1])
        (get_tag_position (Some 2) (Some 5) Omitted) = Some 1
   \<and> later_invoked_entry (contributions two_blockquotes [converter_of_T2, converter_of_T1])
        (get_tag_position (Some 5) (Some 1) Omitted) = Some 2"
proof -
  let ?convs = "[converter_of_T2, converter_of_T1]"
  let ?ds = "contributions two_blockquotes ?convs"
  note ds = contributions_two_converters
  have h1: "\<forall>c \<in> set ?convs. \<exists>r. c two_blockquotes = Inr r"
    by (simp add: converter_of_T2_def converter_of_T1_def)
  have h2: "\<forall>d \<in> set ?ds. distinct (keys d)"
    by (simp only: ds) (simp add: keys_def)
  have h4: "later_invoked_entry ?ds (get_tag_position (Some 2) (Some 5) Omitted) = Some 1"
    by (simp only: ds) (simp add: position_key_values later_invoked_entry_def keys_def)
  have h5: "later_invoked_entry ?ds (get_tag_position (Some 5) (Some 1) Omitted) = Some 2"
    by (simp only: ds) (simp add: position_key_values later_invoked_entry_def keys_def)
  have h3: "inj_on (later_invoked_entry ?ds) (\<Union>d \<in> set ?ds. set (keys d))"
    using h4 h5 by (simp only: ds) (simp add: keys_def position_key_values)
  obtain ks i j where
    c: "convert_objects two_blockquotes ?convs = Inr (map (\<lambda>k. the (later_invoked_entry ?ds k)) ks)"
    and s: "sorted ks" "distinct ks" "set ks = (\<Union>d \<in> set ?ds. set (keys d))"
    and ij: "i < j" "j < length ks"
      "the (later_invoked_entry ?ds (ks ! i)) = 1" "the (later_invoked_entry ?ds (ks ! j)) = 2"
    using convert_order_preservation[OF h1 h2 h3 h4 h5] by blast
  have "card (set ks) = 2"
    using s(3) by (simp only: ds) (simp add: keys_def)
  then have len: "length ks = 2"
    using s(2) by (simp add: distinct_card)
  then have "i = 0" "j = 1" using ij(1,2) by simp_all
  then have "map (\<lambda>k. the (later_invoked_entry ?ds k)) ks = [1, 2]"
    using len ij(3,4) by (cases ks; cases "tl ks") auto
  then show ?thesis using c h4 h5 by simp
qed

text \<open>
  Claim C1, as stated for every list of converters, fails for a converter that returns
  the converted form of \<^verbatim>\<open>T1\<close> a second time, under a later key: appending it again
  moves it, and it ends after the converted form of \<^verbatim>\<open>T2\<close>.
\<close>

theorem convert_order_preservation_counterexample:
  "later_invoked_entry (contributions two_blockquotes [converter_returning_twice])
        (get_tag_position (Some 2) (Some 5) Omitted) = Some 1
   \<and> later_invoked_entry (contributions two_blockquotes [converter_returning_twice])
        (get_tag_position (Some 5) (Some 1) Omitted) = Some 2
   \<and> convert_objects two_blockquotes [converter_returning_twice] = Inr [2, 1]"
  by code_simp

section \<open>The preconditions of the builder\<close>

lemma first_match_None_iff:
  "(case filter P xs of [] \<Rightarrow> None | t # ts \<Rightarrow> Some t) = None \<longleftrightarrow> \<not> (\<exists>t \<in> set xs. P t)"
proof (cases "filter P xs")
  case Nil
  then show ?thesis by (simp add: filter_empty_conv)
next
  case (Cons a as)
  have "a \<in> set (filter P xs)" using Cons by simp
  then have "a \<in> set xs \<and> P a" by simp
  then show ?thesis using Cons by auto
qed

lemma find_tag_attr_None_iff:
  "find_tag_attr root nm key x = None \<longleftrightarrow> \<not> (\<exists>t \<in> set (descendants root). tag_matches nm key x t)"
  unfolding find_tag_attr_def by (rule first_match_None_iff)

lemma find_tag_None_iff:
  "find_tag root nm = None \<longleftrightarrow> \<not> (\<exists>t \<in> set (descendants root). is_tag_named nm t)"
  unfolding find_tag_def find_all_def by (rule first_match_None_iff)

lemma find_marker_iff:
  "find_tag_attr soup ''div'' ''class'' ''service_msg_error'' = None
     \<longleftrightarrow> \<not> has_service_error_marker soup"
  unfolding has_service_error_marker_def by (rule find_tag_attr_None_iff)

lemma find_placeholder_iff:
  "find_tag_attr soup ''div'' ''class'' ''article_layer_placeholder__text'' = None
     \<longleftrightarrow> \<not> has_restricted_placeholder soup"
  unfolding has_restricted_placeholder_def by (rule find_tag_attr_None_iff)

lemma find_title_tag:
  "find_tag_attr soup ''meta'' ''property'' ''og:title'' =
     (case og_title_tags soup of [] \<Rightarrow> None | t # ts \<Rightarrow> Some t)"
  by (simp add: find_tag_attr_def og_title_tags_def)

lemma find_body_iff: "find_tag soup ''body'' = None \<longleftrightarrow> body_absent soup"
  unfolding body_absent_def by (rule find_tag_None_iff)

text \<open>
  Claim C5, as amended. \<open>build\<close> raises an \<^verbatim>\<open>HTMLParseError\<close> of its own when the
  document holds the service-error marker or the restricted-content placeholder, when
  it has no \<^verbatim>\<open>og:title\<close> tag, or when it has no body. In every other case \<open>build\<close>
  reaches the conversion of the body, and its outcome is that of the conversion: a page
  with the converted body when the converters return, and the exception of a converter
  that raises.
\<close>

theorem build_precondition_failures:
  "(has_service_error_marker (html_parser source_html)
      \<or> has_restricted_placeholder (html_parser source_html)
      \<or> og_title_absent (html_parser source_html)
      \<or> body_absent (html_parser source_html)
    \<longrightarrow> (\<exists>m. build html_parser source_html tag_converters = Inl (HTMLParseError m)))
   \<and> (\<not> (has_service_error_marker (html_parser source_html)
      \<or> has_restricted_placeholder (html_parser source_html)
      \<or> og_title_absent (html_parser source_html)
      \<or> body_absent (html_parser source_html))
    \<longrightarrow> (\<exists>body t. find_tag (html_parser source_html) ''body'' = Some body
          \<and> build html_parser source_html tag_converters =
              (case convert body tag_converters of
                 Inl e \<Rightarrow> Inl e
               | Inr new_body \<Rightarrow> Inr \<lparr>title = t, html = new_body, url = None, path = None\<rparr>)))"
proof -
  let ?soup = "html_parser source_html"
  let ?b = "build html_parser source_html tag_converters"
  have m: "has_service_error_marker ?soup \<Longrightarrow> \<exists>m. ?b = Inl (HTMLParseError m)"
    using find_marker_iff[of ?soup] by (auto simp: build_def)
  have p: "has_restricted_placeholder ?soup \<Longrightarrow> \<exists>m. ?b = Inl (HTMLParseError m)"
    using find_placeholder_iff[of ?soup]
    by (cases "find_tag_attr ?soup ''div'' ''class'' ''service_msg_error''")
       (auto simp: build_def)
  have t: "og_title_absent ?soup \<Longrightarrow> \<exists>m. ?b = Inl (HTMLParseError m)"
    by (cases "find_tag_attr ?soup ''div'' ''class'' ''service_msg_error''";
        cases "find_tag_attr ?soup ''div'' ''class'' ''article_layer_placeholder__text''")
       (simp_all add: build_def find_title_tag og_title_absent_def)
  have b: "body_absent ?soup \<Longrightarrow> \<exists>m. ?b = Inl (HTMLParseError m)"
    using find_body_iff[of ?soup]
    by (cases "find_tag_attr ?soup ''div'' ''class'' ''service_msg_error''";
        cases "find_tag_attr ?soup ''div'' ''class'' ''article_layer_placeholder__text''";
        cases "find_tag_attr ?soup ''meta'' ''property'' ''og:title''")
       (simp_all add: build_def)
  have ok: "\<exists>body t. find_tag ?soup ''body'' = Some body
          \<and> ?b = (case convert body tag_converters of
                 Inl e \<Rightarrow> Inl e
               | Inr new_body \<Rightarrow> Inr \<lparr>title = t, html = new_body, url = None, path = None\<rparr>)"
    if a1: "\<not> has_service_error_marker ?soup" and a2: "\<not> has_restricted_placeholder ?soup"
      and a3: "\<not> og_title_absent ?soup" and a4: "\<not> body_absent ?soup"
  proof -
    obtain tt where tt: "find_tag_attr ?soup ''meta'' ''property'' ''og:title'' = Some tt"
      using a3 by (cases "og_title_tags ?soup") (simp_all add: find_title_tag og_title_absent_def)
    obtain body where body: "find_tag ?soup ''body'' = Some body"
      using a4 find_body_iff[of ?soup] by auto
    have "?b = (case convert body tag_converters of
                 Inl e \<Rightarrow> Inl e
               | Inr new_body \<Rightarrow>
                   Inr \<lparr>title = tag_get tt ''content'', html = new_body,
                        url = None, path = None\<rparr>)"
      using a1 a2 tt body find_marker_iff[of ?soup] find_placeholder_iff[of ?soup]
      by (simp add: build_def)
    then show ?thesis using body by blast
  qed
  show ?thesis using m p t b ok by blast
qed

theorem build_precondition_failures_witness:
  "og_title_absent page_without_title
   \<and> (\<exists>m. build (parses_to page_without_title) [] [convert_blockquote] = Inl (HTMLParseError m))"
proof -
  have a: "og_title_absent (parses_to page_without_title [])"
    by code_simp
  then show ?thesis
    using build_precondition_failures[of "parses_to page_without_title" "[]" "[convert_blockquote]"]
    by (simp add: parses_to_def)
qed

text \<open>
  Claim C5, as stated, fails on a document whose \<^verbatim>\<open>og:title\<close> tag is malformed (it has
  no \<^verbatim>\<open>content\<close>): \<open>build\<close> returns a page.
\<close>

theorem build_malformed_title_counterexample:
  "og_title_malformed page_title_without_content
   \<and> build (parses_to page_title_without_content) [] [convert_blockquote]
       = Inr \<lparr>title = None, html = BeautifulSoup_empty, url = None, path = None\<rparr>"
  by code_simp

text \<open>
  Claim C10, as amended. On a document without error marker and without placeholder,
  whose first \<^verbatim>\<open>og:title\<close> tag has no \<^verbatim>\<open>content\<close> attribute and which has a body,
  \<open>build\<close> raises nothing of its own: its outcome is that of the conversion of the
  body, a page whose title is \<^verbatim>\<open>None\<close> when the converters return, and the exception
  of a converter that raises.
\<close>

theorem build_title_without_content:
  assumes "\<not> has_service_error_marker (html_parser source_html)"
    and "\<not> has_restricted_placeholder (html_parser source_html)"
    and "og_title_malformed (html_parser source_html)"
    and "find_tag (html_parser source_html) ''body'' = Some body"
  shows "build html_parser source_html tag_converters =
           (case convert body tag_converters of
              Inl e \<Rightarrow> Inl e
            | Inr new_body \<Rightarrow> Inr \<lparr>title = None, html = new_body, url = None, path = None\<rparr>)"
proof -
  let ?soup = "html_parser source_html"
  obtain tt where tt: "find_tag_attr ?soup ''meta'' ''property'' ''og:title'' = Some tt"
    and c: "tag_get tt ''content'' = None"
    using assms(3)
    by (cases "og_title_tags ?soup") (simp_all add: find_title_tag og_title_malformed_def)
  show ?thesis
    using assms(1,2,4) tt c find_marker_iff[of ?soup] find_placeholder_iff[of ?soup]
    by (simp add: build_def)
qed

theorem build_title_without_content_witness:
  "build (parses_to page_title_without_content) ''<html>'' [convert_blockquote]
     = Inr \<lparr>title = None, html = Tag ''[document]'' [] [] None None, url = None, path = None\<rparr>"
proof -
  let ?p = "parses_to page_title_without_content"
  let ?body = "Tag ''body'' [] [Tag ''p'' [] [NavigableString ''t''] (Some 1) (Some 51)]
           (Some 1) (Some 45)"
  have h1: "\<not> has_service_error_marker (?p ''<html>'')" by code_simp
  have h2: "\<not> has_restricted_placeholder (?p ''<html>'')" by code_simp
  have h3: "og_title_malformed (?p ''<html>'')" by code_simp
  have h4: "find_tag (?p ''<html>'') ''body'' = Some ?body" by code_simp
  have h5: "convert ?body [convert_blockquote] = Inr (Tag ''[document]'' [] [] None None)"
    by code_simp
  show ?thesis
    using build_title_without_content[of ?p "''<html>''", OF h1 h2 h3 h4, of "[convert_blockquote]"]
    by (simp only: h5) simp
qed

text \<open>
  Claim C10, as stated, fails on two documents without marker and placeholder and with
  a body. On the first the \<^verbatim>\<open>og:title\<close> tag has no \<^verbatim>\<open>content\<close> and the body holds a
  blockquote with three children: \<open>build\<close> raises the \<^verbatim>\<open>TypeError\<close> of the converter.
  On the second an \<^verbatim>\<open>og:title\<close> tag without \<^verbatim>\<open>content\<close> follows one that has it:
  the title is that of the first tag.
\<close>

theorem build_title_without_content_counterexample:
  "has_og_title_without_content page_title_without_content_child_strong
   \<and> \<not> has_service_error_marker page_title_without_content_child_strong
   \<and> \<not> has_restricted_placeholder page_title_without_content_child_strong
   \<and> \<not> body_absent page_title_without_content_child_strong
   \<and> build (parses_to page_title_without_content_child_strong) [] [convert_blockquote]
       = Inl TypeError
   \<and> has_og_title_without_content page_two_title_tags
   \<and> \<not> has_service_error_marker page_two_title_tags
   \<and> \<not> has_restricted_placeholder page_two_title_tags
   \<and> \<not> body_absent page_two_title_tags
   \<and> build (parses_to page_two_title_tags) [] [convert_blockquote]
       = Inr \<lparr>title = Some (Str ''A''), html = BeautifulSoup_empty, url = None, path = None\<rparr>"
  by code_simp

section \<open>Running the blockquote converter again\<close>

lemma update_not_Nil: "AList.update k v al \<noteq> []"
  by (cases al) simp_all

lemma snd_set_update: "snd ` set (AList.update k v al) \<subseteq> insert v (snd ` set al)"
  by (induction al) auto

lemma convert_blockquote_loop_Cons:
  "convert_blockquote_loop (tag # tags) new_tags =
     (case tag_string tag of
        None \<Rightarrow> Inl TypeError
      | Some s \<Rightarrow>
          convert_blockquote_loop tags
            (AList.update (get_tag_position (sourceline tag) (sourcepos tag) Omitted)
               (Tag ''blockquote'' [] [NavigableString s] None None) new_tags))"
  by (cases "tag_string tag") (simp_all add: new_tag_def dict_update_def)

lemma convert_blockquote_loop_not_Nil:
  "convert_blockquote_loop tags acc = Inr d \<Longrightarrow> acc \<noteq> [] \<Longrightarrow> d \<noteq> []"
proof (induction tags arbitrary: acc)
  case Nil
  then show ?case by simp
next
  case (Cons tag tags)
  then show ?case
    by (auto simp: convert_blockquote_loop_Cons update_not_Nil
        simp del: convert_blockquote_loop.simps split: option.splits)
qed

lemma convert_blockquote_loop_values:
  "convert_blockquote_loop tags acc = Inr d \<Longrightarrow>
   \<forall>v \<in> snd ` set acc. \<exists>s. v = Tag ''blockquote'' [] [NavigableString s] None None \<Longrightarrow>
   \<forall>v \<in> snd ` set d. \<exists>s. v = Tag ''blockquote'' [] [NavigableString s] None None"
proof (induction tags arbitrary: acc)
  case Nil
  then show ?case by simp
next
  case (Cons tag tags)
  from Cons.prems(1) obtain s where s: "tag_string tag = Some s"
    and run: "convert_blockquote_loop tags
          (AList.update (get_tag_position (sourceline tag) (sourcepos tag) Omitted)
             (Tag ''blockquote'' [] [NavigableString s] None None) acc) = Inr d"
    by (auto simp: convert_blockquote_loop_Cons simp del: convert_blockquote_loop.simps
        split: option.splits)
  let ?k = "get_tag_position (sourceline tag) (sourcepos tag) Omitted"
  let ?t = "Tag ''blockquote'' [] [NavigableString s] None None"
  have "\<forall>v \<in> snd ` set (AList.update ?k ?t acc).
          \<exists>s. v = Tag ''blockquote'' [] [NavigableString s] None None"
  proof
    fix w
    assume "w \<in> snd ` set (AList.update ?k ?t acc)"
    then have "w \<in> insert ?t (snd ` set acc)"
      using snd_set_update[of ?k ?t acc] by (rule_tac subsetD)
    then have "w = ?t \<or> w \<in> snd ` set acc"
      by (simp only: insert_iff)
    then show "\<exists>s. w = Tag ''blockquote'' [] [NavigableString s] None None"
    proof
      assume "w = ?t"
      then show ?thesis by (rule_tac exI)
    next
      assume "w \<in> snd ` set acc"
      with Cons.prems(2) show ?thesis by (rule bspec)
    qed
  qed
  from Cons.IH[OF run this] show ?case .
qed

lemma convert_blockquote_loop_distinct:
  "convert_blockquote_loop tags acc = Inr d \<Longrightarrow> distinct (keys acc) \<Longrightarrow> distinct (keys d)"
proof (induction tags arbitrary: acc)
  case Nil
  then show ?case by simp
next
  case (Cons tag tags)
  from Cons.prems(1) obtain s where
    run: "convert_blockquote_loop tags
          (AList.update (get_tag_position (sourceline tag) (sourcepos tag) Omitted)
             (Tag ''blockquote'' [] [NavigableString s] None None) acc) = Inr d"
    by (auto simp: convert_blockquote_loop_Cons simp del: convert_blockquote_loop.simps
        split: option.splits)
  have "distinct (keys (AList.update (get_tag_position (sourceline tag) (sourcepos tag) Omitted)
             (Tag ''blockquote'' [] [NavigableString s] None None) acc))"
    using Cons.prems(2) by (simp add: keys_def AList.distinct_update)
  from Cons.IH[OF run this] show ?case .
qed

lemma convert_blockquote_loop_returns:
  "\<forall>t \<in> set tags. \<exists>s. t = Tag ''blockquote'' [] [NavigableString s] None None \<Longrightarrow>
   \<exists>d. convert_blockquote_loop tags acc = Inr d"
proof (induction tags arbitrary: acc)
  case Nil
  show ?case by simp
next
  case (Cons tag tags)
  then obtain s where "tag = Tag ''blockquote'' [] [NavigableString s] None None" by auto
  then have "tag_string tag = Some s" by simp
  moreover have "\<forall>t \<in> set tags. \<exists>s. t = Tag ''blockquote'' [] [NavigableString s] None None"
    using Cons.prems by simp
  ultimately show ?case
    using Cons.IH by (simp add: convert_blockquote_loop_Cons del: convert_blockquote_loop.simps)
qed

lemma find_all_converted:
  "\<forall>t \<in> set ts. \<exists>s. t = Tag ''blockquote'' [] [NavigableString s] None None \<Longrightarrow>
   find_all (Tag ''[document]'' [] ts None None) ''blockquote'' = ts"
proof (induction ts)
  case Nil
  show ?case by (simp add: find_all_def)
next
  case (Cons t ts)
  then obtain s where "t = Tag ''blockquote'' [] [NavigableString s] None None" by auto
  then show ?case using Cons by (simp add: find_all_def)
qed

lemma convert_blockquote_None_iff:
  "convert_blockquote body = Inr None \<longleftrightarrow> find_all body ''blockquote'' = []"
proof (cases "find_all body ''blockquote''")
  case Nil
  then show ?thesis by (simp add: convert_blockquote_def)
next
  case (Cons tag tags)
  show ?thesis
  proof (cases "convert_blockquote_loop (tag # tags) []")
    case (Inl e)
    then show ?thesis using Cons by (simp add: convert_blockquote_def)
  next
    case (Inr d)
    then have "d \<noteq> []"
      by (auto simp: convert_blockquote_loop_Cons update_not_Nil
          simp del: convert_blockquote_loop.simps split: option.splits
          dest: convert_blockquote_loop_not_Nil)
    then show ?thesis using Cons Inr by (simp add: convert_blockquote_def)
  qed
qed


lemma convert_single_converted:
  assumes "convert body [convert_blockquote] = Inr new_body"
    and "find_all body ''blockquote'' \<noteq> []"
  shows "\<exists>ts. ts \<noteq> [] \<and> new_body = Tag ''[document]'' [] ts None None
           \<and> (\<forall>t \<in> set ts. \<exists>s. t = Tag ''blockquote'' [] [NavigableString s] None None)"
proof -
  obtain d0 where loop: "convert_blockquote_loop (find_all body ''blockquote'') [] = Inr d0"
    using assms(1)
    by (cases "convert_blockquote_loop (find_all body ''blockquote'') []")
       (simp_all add: convert_def convert_blockquote_def)
  have d0: "d0 \<noteq> []"
    using convert_blockquote_None_iff[of body] assms(2) loop
    by (auto simp: convert_blockquote_def split: if_splits)
  have cb: "convert_blockquote body = Inr (Some d0)"
    using loop d0 by (simp add: convert_blockquote_def)
  have vals: "\<forall>v \<in> snd ` set d0. \<exists>s. v = Tag ''blockquote'' [] [NavigableString s] None None"
    using convert_blockquote_loop_values[OF loop] by simp
  have dist: "distinct (keys d0)"
    using convert_blockquote_loop_distinct[OF loop] by (simp add: keys_def)
  have ds: "contributions body [convert_blockquote] = [d0]"
    using cb d0 by simp
  let ?ks = "sort (keys (merged [d0] []))"
  have nb: "new_body = Tag ''[document]'' []
              (map (\<lambda>k. the (later_invoked_entry [d0] k)) ?ks) None None"
    using convert_merged[of "[convert_blockquote]" body] assms(1) cb dist
    by (simp only: ds) simp
  have set_ks: "set ?ks = set (keys d0)"
    using keys_merged[of "[d0]" "[]"] by (simp add: keys_def)
  have "keys d0 \<noteq> []"
    using d0 by (simp add: keys_def)
  then have "set ?ks \<noteq> {}"
    unfolding set_ks by simp
  then have ks: "?ks \<noteq> []"
    by (metis empty_set)
  have good: "\<exists>s. the (later_invoked_entry [d0] k) = Tag ''blockquote'' [] [NavigableString s] None None"
    if "k \<in> set ?ks" for k
  proof -
    have k: "k \<in> set (keys d0)" using that set_ks by simp
    then have "map_of d0 k \<noteq> None"
      by (simp add: map_of_eq_None_iff keys_def)
    then obtain v where v: "map_of d0 k = Some v" by blast
    then have "(k, v) \<in> set d0" by (rule map_of_SomeD)
    then have "snd (k, v) \<in> snd ` set d0" by (rule imageI)
    then have "v \<in> snd ` set d0" by (simp only: snd_conv)
    with vals have "\<exists>s. v = Tag ''blockquote'' [] [NavigableString s] None None"
      by (rule bspec)
    moreover have "later_invoked_entry [d0] k = Some v"
      using k v by (simp add: later_invoked_entry_def)
    ultimately show ?thesis by simp
  qed
  let ?ts = "map (\<lambda>k. the (later_invoked_entry [d0] k)) ?ks"
  have "?ts \<noteq> []" using ks by simp
  moreover have "\<forall>t \<in> set ?ts. \<exists>s. t = Tag ''blockquote'' [] [NavigableString s] None None"
  proof
    fix t assume "t \<in> set ?ts"
    then obtain k where "k \<in> set ?ks" "t = the (later_invoked_entry [d0] k)"
      by (auto simp only: set_map)
    then show "\<exists>s. t = Tag ''blockquote'' [] [NavigableString s] None None"
      using good by simp
  qed
  ultimately show ?thesis using nb by blast
qed

text \<open>
  Claim C8, as amended. \<open>convert_blockquote\<close> returns \<^verbatim>\<open>None\<close> exactly on a body
  that holds no blockquote. The document that \<open>convert\<close> builds with
  \<open>convert_blockquote\<close> holds the converted blockquotes, which the converter finds
  again: on it the converter returns \<^verbatim>\<open>None\<close> when the source body held no blockquote
  and a dictionary with entries otherwise.
\<close>

theorem convert_blockquote_rerun:
  "(convert_blockquote body = Inr None \<longleftrightarrow> find_all body ''blockquote'' = [])
   \<and> (convert body [convert_blockquote] = Inr new_body \<longrightarrow>
        (if find_all body ''blockquote'' = [] then convert_blockquote new_body = Inr None
         else \<exists>d. d \<noteq> [] \<and> convert_blockquote new_body = Inr (Some d)))"
proof (intro conjI impI)
  show "convert_blockquote body = Inr None \<longleftrightarrow> find_all body ''blockquote'' = []"
    by (rule convert_blockquote_None_iff)
next
  assume c: "convert body [convert_blockquote] = Inr new_body"
  show "if find_all body ''blockquote'' = [] then convert_blockquote new_body = Inr None
        else \<exists>d. d \<noteq> [] \<and> convert_blockquote new_body = Inr (Some d)"
  proof (cases "find_all body ''blockquote'' = []")
    case True
    then have "new_body = BeautifulSoup_empty"
      using c by (simp add: convert_def convert_blockquote_def keys_def)
    then have "convert_blockquote new_body = Inr None"
      by (simp add: BeautifulSoup_empty_def convert_blockquote_def find_all_def)
    then show ?thesis using True by simp
  next
    case False
    from convert_single_converted[OF c False] obtain ts where ts: "ts \<noteq> []"
      "new_body = Tag ''[document]'' [] ts None None"
      "\<forall>t \<in> set ts. \<exists>s. t = Tag ''blockquote'' [] [NavigableString s] None None"
      by blast
    have f: "find_all new_body ''blockquote'' = ts"
      using find_all_converted[OF ts(3)] ts(2) by simp
    obtain d where d: "convert_blockquote_loop ts [] = Inr d"
      using convert_blockquote_loop_returns[OF ts(3)] by blast
    have "convert_blockquote new_body \<noteq> Inr None"
      using convert_blockquote_None_iff[of new_body] f ts(1) by simp
    then have "d \<noteq> [] \<and> convert_blockquote new_body = Inr (Some d)"
      using f d by (auto simp: convert_blockquote_def split: if_splits)
    then show ?thesis using False by auto
  qed
qed

theorem convert_blockquote_rerun_witness:
  "convert blockquote_source [convert_blockquote] = Inr blockquote_result
   \<and> find_all blockquote_source ''blockquote'' \<noteq> []
   \<and> (\<exists>d. d \<noteq> [] \<and> convert_blockquote blockquote_result = Inr (Some d))"
proof -
  have c: "convert blockquote_source [convert_blockquote] = Inr blockquote_result"
    by code_simp
  have f: "find_all blockquote_source ''blockquote'' \<noteq> []"
    by code_simp
  show ?thesis
    using convert_blockquote_rerun[of blockquote_source blockquote_result] c f by simp
qed

text \<open>
  Claim C8, as stated, fails on the converted form of the sample blockquote: the
  converter finds the converted blockquote, whose line and column are \<^verbatim>\<open>None\<close>, and
  returns an entry for it.
\<close>

theorem convert_blockquote_rerun_counterexample:
  "convert blockquote_source [convert_blockquote] = Inr blockquote_result
   \<and> convert_blockquote blockquote_result
       = Inr (Some [(''000None0None01'',
                     Tag ''blockquote'' [] [NavigableString ''text''] None None)])"
  by code_simp

end
